theory Spec2Isabelle
  imports Main
begin

section \<open>PodGoImg: the image pipeline of \<open>main.go\<close>\<close>

text \<open>
  The program reads podcast records from a database cursor and, for each record, starts a
  goroutine that downloads the record's image, resizes it and stores it as a JPEG file.
  A buffered channel of capacity 10 bounds the goroutines that run at once and a
  \<open>sync.WaitGroup\<close> lets \<open>main\<close> wait for all of them.

  The three helper functions \<open>downloadImage\<close>, \<open>resizeImage\<close> and \<open>saveImage\<close> are
  embedded as functions; the loop of \<open>main\<close> and the goroutine body are embedded as a
  transition system with one program counter for \<open>main\<close> and one per goroutine, where a
  scheduler picks who executes its next statement.
\<close>

subsection \<open>Data\<close>

type_synonym bytes = "char list"

text \<open>Go's \<open>error\<close> values are represented by their message.\<close>

type_synonym err = string

text \<open>The anonymous struct \<open>podcast\<close> of \<open>main\<close> (lines 55-58).\<close>

record podcast =
  PodlistUrl :: string
  Image :: string

text \<open>
  What \<open>cur.Decode(&podcast)\<close> yields for one document of the cursor: an error, or the
  decoded record.
\<close>

type_synonym doc = "err + podcast"

text \<open>An \<open>*http.Response\<close>: the status code and what \<open>io.ReadAll(resp.Body)\<close> yields.\<close>

record response =
  StatusCode :: int
  Body :: "err + bytes"

text \<open>
  An \<open>image.Image\<close>: the width and the height of its bounds (\<open>Bounds().Dx()\<close> and
  \<open>Bounds().Dy()\<close>) and its pixels.
\<close>

record 'p image =
  Dx :: int
  Dy :: int
  Pix :: 'p

text \<open>The interpolation functions of \<open>github.com/nfnt/resize\<close>.\<close>

datatype interp =
  NearestNeighbor | Bilinear | Bicubic | MitchellNetravali | Lanczos2 | Lanczos3

text \<open>
  The libraries and the outside world the program calls into. The type \<open>'p\<close> stands for
  the pixels of an image.
  \<^item> \<open>http_Get url\<close>: the result of \<open>http.Get(url)\<close>;
  \<^item> \<open>image_Decode bs\<close>: the result of \<open>image.Decode\<close> on the bytes \<open>bs\<close>;
  \<^item> \<open>auto_width h img\<close> and \<open>auto_height w img\<close>: the width and the height that
    \<open>resize.Resize\<close> computes, in floating point, for a target width or height of 0,
    from the other target and the image;
  \<^item> \<open>resample w h img f\<close>: the pixels that \<open>resize.Resize\<close> computes for a picture
    of \<open>w\<close> by \<open>h\<close> pixels from \<open>img\<close> with the interpolation function \<open>f\<close>;
  \<^item> \<open>os_Create_fails path\<close>: the error of \<open>os.Create(path)\<close>, if it fails;
  \<^item> \<open>jpeg_Encode img q\<close>: the bytes \<open>jpeg.Encode\<close> writes for \<open>img\<close> at quality
    \<open>q\<close> before it returns, and the error it returns, if any.
\<close>

record 'p env =
  http_Get :: "string \<Rightarrow> err + response"
  image_Decode :: "bytes \<Rightarrow> err + 'p image"
  auto_width :: "nat \<Rightarrow> 'p image \<Rightarrow> nat"
  auto_height :: "nat \<Rightarrow> 'p image \<Rightarrow> nat"
  resample :: "nat \<Rightarrow> nat \<Rightarrow> 'p image \<Rightarrow> interp \<Rightarrow> 'p"
  os_Create_fails :: "string \<Rightarrow> err option"
  jpeg_Encode :: "'p image \<Rightarrow> nat \<Rightarrow> bytes \<times> err option"

text \<open>The regular files of the file system, by path.\<close>

type_synonym fs = "string \<rightharpoonup> bytes"

subsection \<open>Paths: \<open>filepath.Join\<close>\<close>

text \<open>
  \<open>filepath.Join\<close> of Go's standard library on a system whose separator is \<open>/\<close>: the
  elements from the first non-empty one on are joined with the separator and the result
  is cleaned. \<open>Clean\<close> drops empty and \<open>.\<close> elements, lets a \<open>..\<close> element remove the
  element before it (unless that is a \<open>..\<close> too, or the root), and turns the empty result
  into \<open>.\<close>.
\<close>

fun split_sep :: "string \<Rightarrow> string list" where
  "split_sep [] = [[]]"
| "split_sep (c # cs) =
     (if c = CHR ''/'' then [] # split_sep cs
      else (case split_sep cs of [] \<Rightarrow> [[c]] | x # xs \<Rightarrow> (c # x) # xs))"

fun strings_Join :: "string list \<Rightarrow> string \<Rightarrow> string" where
  "strings_Join [] sep = []"
| "strings_Join [e] sep = e"
| "strings_Join (e # es) sep = e @ sep @ strings_Join es sep"

text \<open>The second argument is the output so far, last element first.\<close>

fun clean_elems :: "bool \<Rightarrow> string list \<Rightarrow> string list \<Rightarrow> string list" where
  "clean_elems rooted out [] = rev out"
| "clean_elems rooted out (e # es) =
     (if e = [] \<or> e = ''.'' then clean_elems rooted out es
      else if e = ''..'' then
        (case out of
           [] \<Rightarrow> if rooted then clean_elems rooted [] es else clean_elems rooted [''..''] es
         | o1 # os \<Rightarrow>
             if o1 = ''..'' then clean_elems rooted (''..'' # out) es
             else clean_elems rooted os es)
      else clean_elems rooted (e # out) es)"

definition Clean :: "string \<Rightarrow> string" where
  "Clean path =
     (case path of
        [] \<Rightarrow> ''.''
      | c # _ \<Rightarrow>
          (let rooted = (c = CHR ''/'');
               out = (if rooted then ''/'' else []) @
                     strings_Join (clean_elems rooted [] (split_sep path)) ''/''
           in if out = [] then ''.'' else out))"

fun filepath_Join :: "string list \<Rightarrow> string" where
  "filepath_Join [] = []"
| "filepath_Join (e # es) =
     (if e = [] then filepath_Join es else Clean (strings_Join (e # es) ''/''))"

subsection \<open>The helper functions\<close>

text \<open>
  \<open>downloadImage\<close> (lines 105-122). The status code of the response is not looked at.
\<close>

definition downloadImage :: "'p env \<Rightarrow> string \<Rightarrow> err + 'p image" where
  "downloadImage env url =
     (case http_Get env url of
        Inl e \<Rightarrow> Inl (''failed to get image: '' @ e)
      | Inr resp \<Rightarrow>
          (case Body resp of
             Inl e \<Rightarrow> Inl (''failed to read image data: '' @ e)
           | Inr imgData \<Rightarrow>
               (case image_Decode env imgData of
                  Inl e \<Rightarrow> Inl (''failed to decode image: '' @ e)
                | Inr img \<Rightarrow> Inr img)))"

text \<open>
  \<open>resize.Resize\<close> of \<open>github.com/nfnt/resize\<close>: a target of 0 is computed from the
  other one; an image that has the target dimensions already, and an image without
  pixels, are returned as they are; every other image yields a new picture of the target
  width and height.
\<close>

definition resize_Resize :: "'p env \<Rightarrow> nat \<Rightarrow> nat \<Rightarrow> 'p image \<Rightarrow> interp \<Rightarrow> 'p image" where
  "resize_Resize env width height img interp =
     (let width' = (if width = 0 then auto_width env height img else width);
          height' = (if height = 0 then auto_height env width img else height)
      in if int width' = Dx img \<and> int height' = Dy img then img
         else if Dx img \<le> 0 \<or> Dy img \<le> 0 then img
         else \<lparr>Dx = int width', Dy = int height',
                Pix = resample env width' height' img interp\<rparr>)"

text \<open>\<open>resizeImage\<close> (lines 124-126).\<close>

definition resizeImage :: "'p env \<Rightarrow> 'p image \<Rightarrow> nat \<Rightarrow> nat \<Rightarrow> err + 'p image" where
  "resizeImage env img width height = Inr (resize_Resize env width height img Lanczos3)"

text \<open>
  \<open>os.Create\<close> creates the file, or truncates the one that is there; writing appends to
  what the file holds.
\<close>

definition os_Create :: "'p env \<Rightarrow> fs \<Rightarrow> string \<Rightarrow> err + fs" where
  "os_Create env files path =
     (case os_Create_fails env path of
        Some e \<Rightarrow> Inl e
      | None \<Rightarrow> Inr (files(path \<mapsto> [])))"

definition file_Write :: "fs \<Rightarrow> string \<Rightarrow> bytes \<Rightarrow> fs" where
  "file_Write files path bs =
     (case files path of
        None \<Rightarrow> files
      | Some old \<Rightarrow> files(path \<mapsto> old @ bs))"

text \<open>
  \<open>saveImage\<close> (lines 128-137): the file system after the call and the error returned,
  if any.
\<close>

definition saveImage :: "'p env \<Rightarrow> fs \<Rightarrow> 'p image \<Rightarrow> string \<Rightarrow> fs \<times> err option" where
  "saveImage env files img path =
     (case os_Create env files path of
        Inl e \<Rightarrow> (files, Some (''failed to create file: '' @ e))
      | Inr files1 \<Rightarrow>
          (let (bs, r) = jpeg_Encode env img 75
           in (file_Write files1 path bs, r)))"

subsection \<open>The goroutines\<close>

text \<open>
  Where \<open>main\<close> stands, from line 51 on (the connection, the query and the output
  directory are set up before and are taken to have succeeded). The record decoded in
  the current iteration is carried along.
\<close>

datatype mpc =
    M_Next \<comment> \<open>line 54: \<open>cur.Next\<close>\<close>
  | M_Decode doc \<comment> \<open>lines 60-64: \<open>cur.Decode\<close> and its error check\<close>
  | M_Add podcast \<comment> \<open>line 66: \<open>wg.Add(1)\<close>\<close>
  | M_Acquire podcast \<comment> \<open>line 67: the send on \<open>sem\<close>\<close>
  | M_Go podcast \<comment> \<open>lines 68-94: the \<open>go\<close> statement\<close>
  | M_CurErr \<comment> \<open>lines 97-99: \<open>cur.Err\<close>\<close>
  | M_Wait \<comment> \<open>line 101: \<open>wg.Wait\<close>\<close>
  | M_Println \<comment> \<open>line 102\<close>
  | M_Return \<comment> \<open>line 103: \<open>main\<close> returns\<close>

text \<open>
  Where a goroutine stands. The two deferred calls run in reverse order of their
  \<open>defer\<close> statements: first the receive from \<open>sem\<close> (line 73), then \<open>wg.Done\<close>
  (line 72).
\<close>

datatype 'i tpc =
    T_Download \<comment> \<open>lines 76-80\<close>
  | T_Resize 'i \<comment> \<open>lines 83-87\<close>
  | T_Save 'i \<comment> \<open>lines 90-93\<close>
  | T_Release \<comment> \<open>line 73, deferred\<close>
  | T_Done \<comment> \<open>line 72, deferred\<close>
  | T_Exit \<comment> \<open>the goroutine has ended\<close>

record 'i task =
  podcast :: podcast
  tpc :: "'i tpc"

text \<open>
  The state of the process: the documents the cursor has yet to deliver and the error
  that \<open>cur.Err\<close> reports once \<open>cur.Next\<close> has returned false, the counter of the
  wait group, the number of values in the buffer of \<open>sem\<close>, the goroutines started so
  far, the files, the lines written by \<open>log\<close> (without the date and time \<open>log\<close> puts
  in front) and to standard output, and the exit status once the process has ended.
\<close>

record 'i state =
  cur_docs :: "doc list"
  cur_err :: "err option"
  main_pc :: mpc
  wg :: nat
  sem :: nat
  tasks :: "'i task list"
  files :: fs
  log :: "string list"
  stdout :: "string list"
  exited :: "nat option"

definition sem_cap :: nat where
  "sem_cap = 10"

definition init :: "doc list \<Rightarrow> err option \<Rightarrow> fs \<Rightarrow> 'i state" where
  "init ds e fs0 =
     \<lparr>cur_docs = ds, cur_err = e, main_pc = M_Next, wg = 0, sem = 0, tasks = [],
      files = fs0, log = [], stdout = [], exited = None\<rparr>"

text \<open>
  One statement of \<open>main\<close>. \<open>None\<close> means that \<open>main\<close> cannot move: the send blocks
  while the buffer of \<open>sem\<close> is full, \<open>wg.Wait\<close> blocks while the counter is not zero.
  \<open>log.Fatalf\<close> writes its line and ends the process with status 1; returning from
  \<open>main\<close> ends it with status 0.
\<close>

fun main_stmt :: "mpc \<Rightarrow> 'i state \<Rightarrow> 'i state option" where
  "main_stmt M_Next s =
     (case cur_docs s of
        [] \<Rightarrow> Some (s\<lparr>main_pc := M_CurErr\<rparr>)
      | d # ds \<Rightarrow> Some (s\<lparr>cur_docs := ds, main_pc := M_Decode d\<rparr>))"
| "main_stmt (M_Decode d) s =
     (case d of
        Inl e \<Rightarrow>
          Some (s\<lparr>log := log s @ [''Failed to decode document: '' @ e], main_pc := M_Next\<rparr>)
      | Inr p \<Rightarrow> Some (s\<lparr>main_pc := M_Add p\<rparr>))"
| "main_stmt (M_Add p) s = Some (s\<lparr>wg := wg s + 1, main_pc := M_Acquire p\<rparr>)"
| "main_stmt (M_Acquire p) s =
     (if sem s < sem_cap then Some (s\<lparr>sem := sem s + 1, main_pc := M_Go p\<rparr>) else None)"
| "main_stmt (M_Go p) s =
     Some (s\<lparr>tasks := tasks s @ [\<lparr>podcast = p, tpc = T_Download\<rparr>], main_pc := M_Next\<rparr>)"
| "main_stmt M_CurErr s =
     (case cur_err s of
        Some e \<Rightarrow> Some (s\<lparr>log := log s @ [''Cursor error: '' @ e], exited := Some 1\<rparr>)
      | None \<Rightarrow> Some (s\<lparr>main_pc := M_Wait\<rparr>))"
| "main_stmt M_Wait s = (if wg s = 0 then Some (s\<lparr>main_pc := M_Println\<rparr>) else None)"
| "main_stmt M_Println s =
     Some (s\<lparr>stdout := stdout s @ [''All images processed.''], main_pc := M_Return\<rparr>)"
| "main_stmt M_Return s = Some (s\<lparr>exited := Some 0\<rparr>)"

text \<open>
  One statement of the goroutine \<open>i\<close>, which works on the record \<open>p\<close>. The receive
  from \<open>sem\<close> blocks while the buffer is empty; \<open>wg.Done\<close> on a counter that is zero
  panics, which ends the process with status 2.
\<close>

definition set_tpc :: "nat \<Rightarrow> 'i tpc \<Rightarrow> 'i state \<Rightarrow> 'i state" where
  "set_tpc i pc s = s\<lparr>tasks := (tasks s)[i := (tasks s ! i)\<lparr>tpc := pc\<rparr>]\<rparr>"

fun task_stmt ::
  "'p env \<Rightarrow> nat \<Rightarrow> podcast \<Rightarrow> 'p image tpc \<Rightarrow> 'p image state \<Rightarrow> 'p image state option" where
  "task_stmt env i p T_Download s =
     (case downloadImage env (Image p) of
        Inl e \<Rightarrow>
          Some (set_tpc i T_Release
            (s\<lparr>log := log s @ [''Failed to download image: '' @ Image p @ '', error: '' @ e]\<rparr>))
      | Inr imageData \<Rightarrow> Some (set_tpc i (T_Resize imageData) s))"
| "task_stmt env i p (T_Resize imageData) s =
     (case resizeImage env imageData 800 800 of
        Inl e \<Rightarrow>
          Some (set_tpc i T_Release (s\<lparr>log := log s @ [''Failed to resize image: '' @ e]\<rparr>))
      | Inr resizedImg \<Rightarrow> Some (set_tpc i (T_Save resizedImg) s))"
| "task_stmt env i p (T_Save resizedImg) s =
     (case saveImage env (files s) resizedImg (filepath_Join [''img'', PodlistUrl p @ ''.jpg'']) of
        (files', Some e) \<Rightarrow>
          Some (set_tpc i T_Release
            (s\<lparr>files := files', log := log s @ [''Failed to save image: '' @ e]\<rparr>))
      | (files', None) \<Rightarrow> Some (set_tpc i T_Release (s\<lparr>files := files'\<rparr>)))"
| "task_stmt env i p T_Release s =
     (if 0 < sem s then Some (set_tpc i T_Done (s\<lparr>sem := sem s - 1\<rparr>)) else None)"
| "task_stmt env i p T_Done s =
     (if wg s = 0 then Some (s\<lparr>exited := Some 2\<rparr>)
      else Some (set_tpc i T_Exit (s\<lparr>wg := wg s - 1\<rparr>)))"
| "task_stmt env i p T_Exit s = None"

text \<open>
  A step of the process: the scheduler picks \<open>main\<close> or one of the goroutines, which
  executes its next statement. Nobody moves once the process has ended.
\<close>

datatype actor = Main | Task nat

fun step :: "'p env \<Rightarrow> actor \<Rightarrow> 'p image state \<Rightarrow> 'p image state option" where
  "step env Main s = (if exited s \<noteq> None then None else main_stmt (main_pc s) s)"
| "step env (Task i) s =
     (if exited s \<noteq> None \<or> length (tasks s) \<le> i then None
      else task_stmt env i (podcast (tasks s ! i)) (tpc (tasks s ! i)) s)"

text \<open>A schedule is run from left to right; it is \<open>None\<close> when one of its steps cannot be taken.\<close>

fun run :: "'p env \<Rightarrow> actor list \<Rightarrow> 'p image state \<Rightarrow> 'p image state option" where
  "run env [] s = Some s"
| "run env (a # as) s = (case step env a s of None \<Rightarrow> None | Some s' \<Rightarrow> run env as s')"

text \<open>The states the process can be in, for a cursor and a file system to start with.\<close>

inductive reachable :: "'p env \<Rightarrow> 'p image state \<Rightarrow> 'p image state \<Rightarrow> bool" for env s0 where
  reach_init: "reachable env s0 s0"
| reach_step: "reachable env s0 s \<Longrightarrow> step env a s = Some s' \<Longrightarrow> reachable env s0 s'"

text \<open>
  A goroutine holds a token of \<open>sem\<close> from its start until its deferred receive; it is
  outstanding for the wait group until its \<open>wg.Done\<close>.
\<close>

fun pc_holds :: "'i tpc \<Rightarrow> bool" where
  "pc_holds T_Done = False"
| "pc_holds T_Exit = False"
| "pc_holds _ = True"

fun pc_outstanding :: "'i tpc \<Rightarrow> bool" where
  "pc_outstanding T_Exit = False"
| "pc_outstanding _ = True"

definition holds_token :: "'i task \<Rightarrow> bool" where
  "holds_token t = pc_holds (tpc t)"

definition outstanding :: "'i task \<Rightarrow> bool" where
  "outstanding t = pc_outstanding (tpc t)"

definition executing :: "'i state \<Rightarrow> nat" where
  "executing s = length (filter holds_token (tasks s))"

text \<open>
  Running a goroutine changes the record of no goroutine, so the records of the
  goroutines started, the record \<open>main\<close> is working on and the records still to come
  can be compared with the records of the cursor.
\<close>

fun rights :: "doc list \<Rightarrow> podcast list" where
  "rights [] = []"
| "rights (Inl e # ds) = rights ds"
| "rights (Inr p # ds) = p # rights ds"

fun current :: "mpc \<Rightarrow> podcast list" where
  "current (M_Decode (Inr p)) = [p]"
| "current (M_Add p) = [p]"
| "current (M_Acquire p) = [p]"
| "current (M_Go p) = [p]"
| "current _ = []"

text \<open>
  The bookkeeping of \<open>main\<close>: the token it has put into \<open>sem\<close> for a goroutine not yet
  started, and the unit it has added to the wait group for it.
\<close>

fun pending_token :: "mpc \<Rightarrow> nat" where
  "pending_token (M_Go p) = 1"
| "pending_token _ = 0"

fun pending_reg :: "mpc \<Rightarrow> nat" where
  "pending_reg (M_Acquire p) = 1"
| "pending_reg (M_Go p) = 1"
| "pending_reg _ = 0"

fun past_loop :: "mpc \<Rightarrow> bool" where
  "past_loop M_CurErr = True"
| "past_loop M_Wait = True"
| "past_loop M_Println = True"
| "past_loop M_Return = True"
| "past_loop _ = False"

fun past_wait :: "mpc \<Rightarrow> bool" where
  "past_wait M_Println = True"
| "past_wait M_Return = True"
| "past_wait _ = False"






text \<open>A path none of whose elements is empty, \<open>.\<close> or \<open>..\<close>.\<close>

definition plain_elems :: "string \<Rightarrow> bool" where
  "plain_elems path = list_all (\<lambda>e. e \<noteq> [] \<and> e \<noteq> ''.'' \<and> e \<noteq> ''..'') (split_sep path)"

definition resize_failure :: "string \<Rightarrow> bool" where
  "resize_failure line = (take 23 line = ''Failed to resize image:'')"

subsection \<open>A small world to run the program in\<close>

text \<open>
  The pixels of an image are the bytes it was decoded from. One host serves \<open>a.png\<close>,
  answers 404 with a placeholder picture for \<open>gone.png\<close>, serves \<open>big.png\<close>, whose
  encoding runs out of disk space after two bytes, and serves \<open>empty.png\<close>, a picture
  of 0 by 0 pixels; every other address cannot be reached. Resampling keeps the pixels.
\<close>

type_synonym pic = "bytes image"

definition world :: "bytes env" where
  "world =
     \<lparr>http_Get = (\<lambda>url.
        if url = ''http://cdn.test/a.png'' then Inr \<lparr>StatusCode = 200, Body = Inr ''PNG-a''\<rparr>
        else if url = ''http://cdn.test/gone.png''
          then Inr \<lparr>StatusCode = 404, Body = Inr ''PNG-gone''\<rparr>
        else if url = ''http://cdn.test/big.png''
          then Inr \<lparr>StatusCode = 200, Body = Inr ''PNG-big''\<rparr>
        else if url = ''http://cdn.test/empty.png''
          then Inr \<lparr>StatusCode = 200, Body = Inr ''PNG-empty''\<rparr>
        else Inl ''no such host''),
      image_Decode = (\<lambda>bs.
        if bs = ''PNG-empty'' then Inr \<lparr>Dx = 0, Dy = 0, Pix = bs\<rparr>
        else if take 3 bs = ''PNG'' then Inr \<lparr>Dx = 1400, Dy = 1400, Pix = bs\<rparr>
        else Inl ''image: unknown format''),
      auto_width = (\<lambda>h img. nat (Dx img)),
      auto_height = (\<lambda>w img. nat (Dy img)),
      resample = (\<lambda>w h img f. Pix img),
      os_Create_fails = (\<lambda>path. None),
      jpeg_Encode = (\<lambda>img q.
        if Pix img = ''PNG-big'' then (''JF'', Some ''no space left on device'')
        else (''JFIF-'' @ Pix img, None))\<rparr>"

definition pod_a :: podcast where
  "pod_a = \<lparr>PodlistUrl = ''alpha'', Image = ''http://cdn.test/a.png''\<rparr>"

definition pod_gone :: podcast where
  "pod_gone = \<lparr>PodlistUrl = ''gone'', Image = ''http://cdn.test/gone.png''\<rparr>"

definition pod_big :: podcast where
  "pod_big = \<lparr>PodlistUrl = ''big'', Image = ''http://cdn.test/big.png''\<rparr>"

definition pod_down :: podcast where
  "pod_down = \<lparr>PodlistUrl = ''down'', Image = ''http://down.test/x.png''\<rparr>"

definition pod_empty :: podcast where
  "pod_empty = \<lparr>PodlistUrl = ''empty'', Image = ''http://cdn.test/empty.png''\<rparr>"

definition pod_up :: podcast where
  "pod_up = \<lparr>PodlistUrl = ''../x'', Image = ''http://cdn.test/a.png''\<rparr>"

text \<open>
  Schedules: \<open>main\<close> takes a record from the cursor to the started goroutine in five
  steps; a goroutine that gets through all of its body takes five steps as well, one
  whose download fails three.
\<close>

definition dispatch_one :: "actor list" where
  "dispatch_one = [Main, Main, Main, Main, Main]"

definition finish_main :: "actor list" where
  "finish_main = [Main, Main, Main, Main, Main]"

definition through :: "nat \<Rightarrow> actor list" where
  "through i = [Task i, Task i, Task i, Task i, Task i]"

definition give_up :: "nat \<Rightarrow> actor list" where
  "give_up i = [Task i, Task i, Task i]"

definition dispatch_ten :: "actor list" where
  "dispatch_ten =
     dispatch_one @ dispatch_one @ dispatch_one @ dispatch_one @ dispatch_one @
     dispatch_one @ dispatch_one @ dispatch_one @ dispatch_one @ dispatch_one"

text \<open>What holds in every state the process can be in.\<close>

definition inv :: "'i state \<Rightarrow> bool" where
  "inv s \<longleftrightarrow>
     sem s = executing s + pending_token (main_pc s) \<and>
     sem s \<le> sem_cap \<and>
     wg s = length (filter outstanding (tasks s)) + pending_reg (main_pc s) \<and>
     (past_loop (main_pc s) \<longrightarrow> cur_docs s = []) \<and>
     (past_wait (main_pc s) \<longrightarrow> wg s = 0) \<and>
     stdout s = (if main_pc s = M_Return then [''All images processed.''] else []) \<and>
     exited s \<noteq> Some 2 \<and>
     (exited s = Some 0 \<longrightarrow> main_pc s = M_Return) \<and>
     (exited s \<noteq> None \<longrightarrow> exited s \<noteq> Some 0 \<longrightarrow>
        exited s = Some 1 \<and> main_pc s = M_CurErr \<and> cur_err s \<noteq> None)"

text \<open>States of the small world, written out.\<close>

definition started :: "podcast \<Rightarrow> pic tpc \<Rightarrow> pic state" where
  "started p pc =
     \<lparr>cur_docs = [], cur_err = None, main_pc = M_Next, wg = 1, sem = 1,
      tasks = [\<lparr>podcast = p, tpc = pc\<rparr>], files = Map.empty, log = [], stdout = [],
      exited = None\<rparr>"

definition waited :: "podcast \<Rightarrow> fs \<Rightarrow> string list \<Rightarrow> pic state" where
  "waited p fs lg =
     \<lparr>cur_docs = [], cur_err = None, main_pc = M_Println, wg = 0, sem = 0,
      tasks = [\<lparr>podcast = p, tpc = T_Exit\<rparr>], files = fs, log = lg, stdout = [],
      exited = None\<rparr>"

definition ended :: "podcast \<Rightarrow> fs \<Rightarrow> string list \<Rightarrow> pic state" where
  "ended p fs lg =
     \<lparr>cur_docs = [], cur_err = None, main_pc = M_Return, wg = 0, sem = 0,
      tasks = [\<lparr>podcast = p, tpc = T_Exit\<rparr>], files = fs, log = lg,
      stdout = [''All images processed.''], exited = Some 0\<rparr>"

definition at_cursor_error :: "pic state" where
  "at_cursor_error =
     \<lparr>cur_docs = [], cur_err = Some ''connection reset'', main_pc = M_CurErr, wg = 1, sem = 1,
      tasks = [\<lparr>podcast = pod_a, tpc = T_Download\<rparr>], files = Map.empty, log = [],
      stdout = [], exited = None\<rparr>"

definition halted :: "pic state" where
  "halted =
     \<lparr>cur_docs = [], cur_err = Some ''connection reset'', main_pc = M_CurErr, wg = 1, sem = 1,
      tasks = [\<lparr>podcast = pod_a, tpc = T_Download\<rparr>], files = Map.empty,
      log = [''Cursor error: connection reset''], stdout = [], exited = Some 1\<rparr>"


definition pool_full :: "pic state" where
  "pool_full =
     \<lparr>cur_docs = [], cur_err = None, main_pc = M_Acquire pod_a, wg = 11, sem = 10,
      tasks = replicate 10 \<lparr>podcast = pod_a, tpc = T_Download\<rparr>, files = Map.empty,
      log = [], stdout = [], exited = None\<rparr>"


section \<open>Properties\<close>

subsection \<open>Paths\<close>

lemma split_sep_plain: "CHR ''/'' \<notin> set xs \<Longrightarrow> split_sep xs = [xs]"
  by (induction xs) auto

lemma jpg_not_special:
  "ident @ ''.jpg'' \<noteq> []" "ident @ ''.jpg'' \<noteq> ''.''" "ident @ ''.jpg'' \<noteq> ''..''"
proof -
  have len: "4 \<le> length (ident @ ''.jpg'')" by simp
  show "ident @ ''.jpg'' \<noteq> []" by simp
  show "ident @ ''.jpg'' \<noteq> ''.''"
  proof
    assume "ident @ ''.jpg'' = ''.''"
    then have "length (ident @ ''.jpg'') = length ''.''" by (rule arg_cong)
    with len show False by simp
  qed
  show "ident @ ''.jpg'' \<noteq> ''..''"
  proof
    assume "ident @ ''.jpg'' = ''..''"
    then have "length (ident @ ''.jpg'') = length ''..''" by (rule arg_cong)
    with len show False by simp
  qed
qed

lemma split_sep_not_Nil: "split_sep xs \<noteq> []"
  by (induction xs) (auto split: list.splits)

lemma strings_Join_Cons:
  "es \<noteq> [] \<Longrightarrow> strings_Join (e # es) sep = e @ sep @ strings_Join es sep"
  by (cases es) simp_all

lemma strings_Join_char: "strings_Join ((c # x) # xs) sep = c # strings_Join (x # xs) sep"
  by (cases xs) simp_all

lemma Join_split_sep: "strings_Join (split_sep xs) ''/'' = xs"
proof (induction xs)
  case Nil
  show ?case by simp
next
  case (Cons c cs)
  show ?case
  proof (cases "c = CHR ''/''")
    case True
    then show ?thesis using Cons split_sep_not_Nil [of cs] by (simp add: strings_Join_Cons)
  next
    case False
    obtain x xs where sp: "split_sep cs = x # xs"
      using split_sep_not_Nil [of cs] by (cases "split_sep cs") auto
    with False Cons show ?thesis by (simp add: strings_Join_char)
  qed
qed

lemma clean_elems_plain:
  "list_all (\<lambda>e. e \<noteq> [] \<and> e \<noteq> ''.'' \<and> e \<noteq> ''..'') es \<Longrightarrow>
   clean_elems rooted out es = rev out @ es"
  by (induction es arbitrary: out) auto

lemma Join_img_plain:
  assumes "plain_elems x"
  shows "filepath_Join [''img'', x] = ''img/'' @ x"
proof -
  have sp: "split_sep (''img/'' @ x) = ''img'' # split_sep x"
    using split_sep_not_Nil [of x] by (cases "split_sep x") simp_all
  have "clean_elems False [] (''img'' # split_sep x) = ''img'' # split_sep x"
    using assms clean_elems_plain [of "''img'' # split_sep x" False "[]"]
    by (simp add: plain_elems_def)
  then have "strings_Join (clean_elems False [] (split_sep (''img/'' @ x))) ''/'' = ''img/'' @ x"
    using sp split_sep_not_Nil [of x] by (simp add: strings_Join_Cons Join_split_sep)
  then show ?thesis by (simp add: Clean_def del: split_sep.simps)
qed

lemma plain_elems_jpg: "CHR ''/'' \<notin> set ident \<Longrightarrow> plain_elems (ident @ ''.jpg'')"
  using split_sep_plain [of "ident @ ''.jpg''"] jpg_not_special [of ident]
  by (simp add: plain_elems_def)

subsection \<open>Schedules and reachable states\<close>


lemma run_reachable: "reachable env s0 s \<Longrightarrow> run env as s = Some s' \<Longrightarrow> reachable env s0 s'"
proof (induction as arbitrary: s)
  case Nil
  then show ?case by simp
next
  case (Cons a as)
  then show ?case by (auto split: option.splits intro: reach_step)
qed

lemma run_from_init: "run env as s0 = Some s \<Longrightarrow> reachable env s0 s"
  using run_reachable [OF reach_init] .

lemma step_cases:
  assumes "step env a s = Some s'"
  obtains (main) "a = Main" "exited s = None" "main_stmt (main_pc s) s = Some s'"
  | (task) i where "a = Task i" "exited s = None" "i < length (tasks s)"
      "task_stmt env i (podcast (tasks s ! i)) (tpc (tasks s ! i)) s = Some s'"
  using assms by (cases a) (auto split: if_splits)

subsection \<open>Moving one goroutine\<close>

lemma set_tpc_fields [simp]:
  "cur_docs (set_tpc i pc s) = cur_docs s"
  "cur_err (set_tpc i pc s) = cur_err s"
  "main_pc (set_tpc i pc s) = main_pc s"
  "wg (set_tpc i pc s) = wg s"
  "sem (set_tpc i pc s) = sem s"
  "files (set_tpc i pc s) = files s"
  "log (set_tpc i pc s) = log s"
  "stdout (set_tpc i pc s) = stdout s"
  "exited (set_tpc i pc s) = exited s"
  "length (tasks (set_tpc i pc s)) = length (tasks s)"
  by (simp_all add: set_tpc_def)

lemma set_tpc_nth:
  "i < length (tasks s) \<Longrightarrow> tpc (tasks (set_tpc i pc s) ! i) = pc"
  "i < length (tasks s) \<Longrightarrow> podcast (tasks (set_tpc i pc s) ! i) = podcast (tasks s ! i)"
  "j \<noteq> i \<Longrightarrow> tasks (set_tpc i pc s) ! j = tasks s ! j"
  by (simp_all add: set_tpc_def)

lemma set_tpc_podcasts: "map podcast (tasks (set_tpc i pc s)) = map podcast (tasks s)"
proof (cases "i < length (tasks s)")
  case True
  have "map podcast ((tasks s)[i := (tasks s ! i)\<lparr>tpc := pc\<rparr>]) =
        (map podcast (tasks s))[i := podcast (tasks s ! i)]"
    by (simp add: map_update)
  also have "\<dots> = map podcast (tasks s)"
    using True by (metis list_update_id nth_map)
  finally show ?thesis by (simp add: set_tpc_def)
next
  case False
  then show ?thesis by (simp add: set_tpc_def list_update_beyond)
qed

lemma set_tpc_twice:
  "i < length (tasks s) \<Longrightarrow> set_tpc i pc' (set_tpc i pc s) = set_tpc i pc' s"
  by (simp add: set_tpc_def)

lemma count_update:
  "i < length xs \<Longrightarrow>
   length (filter P (xs[i := y])) + (if P (xs ! i) then 1 else 0) =
   length (filter P xs) + (if P y then 1 else 0)"
proof (induction xs arbitrary: i)
  case Nil
  then show ?case by simp
next
  case (Cons x xs)
  then show ?case by (cases i) auto
qed

lemma executing_set_tpc:
  "i < length (tasks s) \<Longrightarrow>
   executing (set_tpc i pc s) + (if pc_holds (tpc (tasks s ! i)) then 1 else 0) =
   executing s + (if pc_holds pc then 1 else 0)"
  using count_update [of i "tasks s" holds_token "(tasks s ! i)\<lparr>tpc := pc\<rparr>"]
  by (simp add: executing_def set_tpc_def holds_token_def)

lemma outstanding_set_tpc:
  "i < length (tasks s) \<Longrightarrow>
   length (filter outstanding (tasks (set_tpc i pc s))) +
     (if pc_outstanding (tpc (tasks s ! i)) then 1 else 0) =
   length (filter outstanding (tasks s)) + (if pc_outstanding pc then 1 else 0)"
  using count_update [of i "tasks s" outstanding "(tasks s ! i)\<lparr>tpc := pc\<rparr>"]
  by (simp add: set_tpc_def outstanding_def)

lemma outstanding_pos:
  "i < length (tasks s) \<Longrightarrow> pc_outstanding (tpc (tasks s ! i)) \<Longrightarrow>
   0 < length (filter outstanding (tasks s))"
  using nth_mem [of i "tasks s"] by (auto simp: filter_empty_conv outstanding_def)


subsection \<open>The invariant\<close>

lemma inv_init: "inv (init ds e fs0)"
  by (simp add: inv_def init_def executing_def)

lemma inv_main:
  assumes "inv s" and "exited s = None" and "main_stmt (main_pc s) s = Some s'"
  shows "inv s'"
proof (cases "main_pc s")
  case M_Next
  then show ?thesis using assms by (auto simp: inv_def executing_def split: list.splits)
next
  case (M_Decode d)
  then show ?thesis using assms by (auto simp: inv_def executing_def split: sum.splits)
next
  case (M_Add p)
  then show ?thesis using assms by (auto simp: inv_def executing_def)
next
  case (M_Acquire p)
  then show ?thesis using assms by (auto simp: inv_def executing_def split: if_splits)
next
  case (M_Go p)
  then show ?thesis using assms
    by (auto simp: inv_def executing_def holds_token_def outstanding_def)
next
  case M_CurErr
  then show ?thesis using assms by (auto simp: inv_def executing_def split: option.splits)
next
  case M_Wait
  then show ?thesis using assms by (auto simp: inv_def executing_def split: if_splits)
next
  case M_Println
  then show ?thesis using assms by (auto simp: inv_def executing_def)
next
  case M_Return
  then show ?thesis using assms by (auto simp: inv_def executing_def)
qed

lemma inv_set_tpc_same:
  assumes "inv s" and "i < length (tasks s)"
    and "pc_holds pc = pc_holds (tpc (tasks s ! i))"
    and "pc_outstanding pc = pc_outstanding (tpc (tasks s ! i))"
    and "tasks s1 = tasks s" "sem s1 = sem s" "wg s1 = wg s" "main_pc s1 = main_pc s"
      "cur_docs s1 = cur_docs s" "exited s1 = exited s" "stdout s1 = stdout s"
      "cur_err s1 = cur_err s"
  shows "inv (set_tpc i pc s1)"
proof -
  have i1: "i < length (tasks s1)" using assms by simp
  have "executing s1 = executing s" using assms by (simp add: executing_def)
  with executing_set_tpc [OF i1, of pc] outstanding_set_tpc [OF i1, of pc] assms
  show ?thesis by (auto simp: inv_def)
qed

lemma inv_task:
  assumes "inv s" and "i < length (tasks s)" and "exited s = None"
    and "task_stmt env i p (tpc (tasks s ! i)) s = Some s'"
  shows "inv s'"
proof (cases "tpc (tasks s ! i)")
  case T_Download
  then show ?thesis using assms
    by (auto split: sum.splits intro!: inv_set_tpc_same)
next
  case (T_Resize img)
  then show ?thesis using assms
    by (auto split: sum.splits intro!: inv_set_tpc_same)
next
  case (T_Save img)
  then show ?thesis using assms
    by (auto split: prod.splits option.splits intro!: inv_set_tpc_same)
next
  case T_Release
  let ?s1 = "s\<lparr>sem := sem s - 1\<rparr>"
  have s': "s' = set_tpc i T_Done ?s1" and pos: "0 < sem s"
    using assms T_Release by (auto split: if_splits)
  have i1: "i < length (tasks ?s1)" using assms by simp
  have ex: "executing ?s1 = executing s" by (simp add: executing_def)
  show ?thesis
    using executing_set_tpc [OF i1, of T_Done] outstanding_set_tpc [OF i1, of T_Done]
      assms(1) T_Release pos ex
    by (auto simp: inv_def s')
next
  case T_Done
  have pos: "0 < wg s"
    using outstanding_pos [OF assms(2)] assms(1) T_Done by (simp add: inv_def)
  let ?s1 = "s\<lparr>wg := wg s - 1\<rparr>"
  have s': "s' = set_tpc i T_Exit ?s1"
    using assms T_Done pos by (auto split: if_splits)
  have i1: "i < length (tasks ?s1)" using assms by simp
  have ex: "executing ?s1 = executing s" by (simp add: executing_def)
  have np: "\<not> past_wait (main_pc s)" using assms(1) pos by (auto simp: inv_def)
  show ?thesis
    using executing_set_tpc [OF i1, of T_Exit] outstanding_set_tpc [OF i1, of T_Exit]
      assms(1) T_Done pos ex np
    by (auto simp: inv_def s')
next
  case T_Exit
  then show ?thesis using assms by simp
qed

lemma inv_step:
  assumes "inv s" and "step env a s = Some s'"
  shows "inv s'"
  using assms(2)
proof (cases rule: step_cases)
  case main
  then show ?thesis using assms(1) by (auto intro: inv_main)
next
  case (task i)
  then show ?thesis using assms(1) by (auto intro: inv_task)
qed

lemma inv_reachable: "reachable env (init ds e fs0) s \<Longrightarrow> inv s"
  by (induction rule: reachable.induct) (auto intro: inv_init inv_step)

lemma past_wait_loop: "past_wait pc \<Longrightarrow> past_loop pc"
  by (cases pc) auto

lemma all_exited:
  assumes "length (filter outstanding ts) = 0"
  shows "\<forall>t \<in> set ts. tpc t = T_Exit"
proof
  fix t assume "t \<in> set ts"
  with assms have "\<not> outstanding t" by (auto simp: filter_empty_conv)
  then show "tpc t = T_Exit" by (cases "tpc t") (auto simp: outstanding_def)
qed

subsection \<open>The records of the goroutines\<close>

lemma task_stmt_frame:
  assumes "task_stmt env i p pc s = Some s'"
  shows "map podcast (tasks s') = map podcast (tasks s) \<and> main_pc s' = main_pc s \<and>
         cur_docs s' = cur_docs s \<and> length (tasks s') = length (tasks s) \<and>
         (\<forall>j. j \<noteq> i \<longrightarrow> tasks s' ! j = tasks s ! j)"
  using assms
  by (cases pc)
     (auto simp: set_tpc_podcasts set_tpc_nth split: sum.splits prod.splits option.splits if_splits)

lemma records_main:
  assumes "main_stmt (main_pc s) s = Some s'"
  shows "map podcast (tasks s') @ current (main_pc s') @ rights (cur_docs s') =
         map podcast (tasks s) @ current (main_pc s) @ rights (cur_docs s)"
proof (cases "main_pc s")
  case M_Next
  show ?thesis
  proof (cases "cur_docs s")
    case Nil
    with M_Next assms show ?thesis by auto
  next
    case (Cons d ds')
    with M_Next assms show ?thesis by (cases d) auto
  qed
next
  case (M_Decode d)
  with assms show ?thesis by (cases d) auto
next
  case (M_Acquire p)
  with assms show ?thesis by (auto split: if_splits)
next
  case M_CurErr
  with assms show ?thesis by (auto split: option.splits)
next
  case M_Wait
  with assms show ?thesis by (auto split: if_splits)
qed (use assms in auto)

lemma records_step:
  assumes "step env a s = Some s'"
  shows "map podcast (tasks s') @ current (main_pc s') @ rights (cur_docs s') =
         map podcast (tasks s) @ current (main_pc s) @ rights (cur_docs s)"
  using assms
proof (cases rule: step_cases)
  case main
  then show ?thesis by (simp add: records_main)
next
  case (task i)
  then show ?thesis using task_stmt_frame [OF task(4)] by simp
qed

lemma records_reachable:
  "reachable env (init ds e fs0) s \<Longrightarrow>
   map podcast (tasks s) @ current (main_pc s) @ rights (cur_docs s) = rights ds"
proof (induction rule: reachable.induct)
  case reach_init
  show ?case by (simp add: init_def)
next
  case (reach_step s a s')
  then show ?case using records_step [of env a s s'] by simp
qed

subsection \<open>What the goroutines log and write\<close>

lemma main_stmt_log:
  assumes "main_stmt pc s = Some s'"
  shows "files s' = files s \<and> (log s' = log s \<or> (\<exists>l. log s' = log s @ [l] \<and> \<not> resize_failure l))"
  using assms
  by (cases pc) (auto simp: resize_failure_def split: list.splits sum.splits option.splits if_splits)

lemma task_stmt_log:
  assumes "task_stmt env i p pc s = Some s'"
  shows "log s' = log s \<or> (\<exists>l. log s' = log s @ [l] \<and> \<not> resize_failure l)"
proof (cases pc)
  case T_Download
  with assms show ?thesis by (auto simp: resize_failure_def split: sum.splits)
next
  case (T_Resize img)
  with assms show ?thesis by (auto simp: resizeImage_def)
next
  case (T_Save img)
  with assms show ?thesis by (auto simp: resize_failure_def split: prod.splits option.splits)
next
  case T_Release
  with assms show ?thesis by (auto split: if_splits)
next
  case T_Done
  with assms show ?thesis by (auto split: if_splits)
next
  case T_Exit
  with assms show ?thesis by simp
qed

lemma log_reachable:
  "reachable env (init ds e fs0) s \<Longrightarrow> \<forall>l \<in> set (log s). \<not> resize_failure l"
proof (induction rule: reachable.induct)
  case reach_init
  show ?case by (simp add: init_def)
next
  case (reach_step s a s')
  from reach_step.hyps(2) show ?case
  proof (cases rule: step_cases)
    case main
    then show ?thesis using main_stmt_log [of "main_pc s" s s'] reach_step.IH by auto
  next
    case (task i)
    then show ?thesis using task_stmt_log [OF task(4)] reach_step.IH by auto
  qed
qed





subsection \<open>The runs of the small world\<close>

lemmas world_simps =
  init_def dispatch_one_def finish_main_def through_def give_up_def dispatch_ten_def sem_cap_def
  world_def pod_a_def pod_gone_def pod_big_def pod_down_def pod_empty_def pod_up_def
  downloadImage_def resizeImage_def resize_Resize_def saveImage_def os_Create_def file_Write_def set_tpc_def
  Clean_def


lemma run_resize:
  "run world (dispatch_one @ [Task 0]) (init [Inr pod_a] None Map.empty) =
   Some (started pod_a (T_Resize \<lparr>Dx = 1400, Dy = 1400, Pix = ''PNG-a''\<rparr>))"
  by (simp add: world_simps started_def)

lemma run_save:
  "run world (dispatch_one @ [Task 0, Task 0]) (init [Inr pod_big] None Map.empty) =
   Some (started pod_big (T_Save \<lparr>Dx = 800, Dy = 800, Pix = ''PNG-big''\<rparr>))"
  by (simp add: world_simps started_def)

lemma run_waited:
  "run world (dispatch_one @ through 0 @ [Main, Main, Main]) (init [Inr pod_a] None Map.empty) =
   Some (waited pod_a [''img/alpha.jpg'' \<mapsto> ''JFIF-PNG-a''] [])"
  by (simp add: world_simps waited_def)

lemma run_at_cursor_error:
  "run world (dispatch_one @ [Main])
     (init [Inr pod_a] (Some ''connection reset'') Map.empty) = Some at_cursor_error"
  by (simp add: world_simps at_cursor_error_def)


lemma replicate_10: "replicate 10 x = [x, x, x, x, x, x, x, x, x, x]"
  by (simp add: numeral_eq_Suc)

lemma replicate_11: "replicate 11 x = [x, x, x, x, x, x, x, x, x, x, x]"
  by (simp add: numeral_eq_Suc)

lemma run_pool_full:
  "run world (dispatch_ten @ [Main, Main, Main])
     (init (replicate 11 (Inr pod_a)) None Map.empty) = Some pool_full"
  by (simp add: world_simps pool_full_def replicate_10 replicate_11)

subsection \<open>The parts of the invariant\<close>

lemma inv_sem: "inv s \<Longrightarrow> sem s = executing s + pending_token (main_pc s)"
  by (simp add: inv_def)

lemma inv_cap: "inv s \<Longrightarrow> sem s \<le> 10"
  by (simp add: inv_def sem_cap_def)

lemma inv_wg: "inv s \<Longrightarrow> wg s = length (filter outstanding (tasks s)) + pending_reg (main_pc s)"
  by (simp add: inv_def)

lemma inv_docs: "inv s \<Longrightarrow> past_loop (main_pc s) \<Longrightarrow> cur_docs s = []"
  unfolding inv_def by blast

lemma inv_waited: "inv s \<Longrightarrow> past_wait (main_pc s) \<Longrightarrow> wg s = 0"
  unfolding inv_def by blast

lemma inv_stdout:
  "inv s \<Longrightarrow> stdout s = (if main_pc s = M_Return then [''All images processed.''] else [])"
  by (simp add: inv_def)

lemma inv_exit_0: "inv s \<Longrightarrow> exited s = Some 0 \<Longrightarrow> main_pc s = M_Return"
  unfolding inv_def by blast

lemma past_wait_all_exited:
  assumes "inv s" and "past_wait (main_pc s)"
  shows "\<forall>t \<in> set (tasks s). tpc t = T_Exit"
proof -
  have "wg s = 0" using assms by (rule inv_waited)
  with inv_wg [OF assms(1)] have "length (filter outstanding (tasks s)) = 0" by simp
  then show ?thesis by (rule all_exited)
qed

subsection \<open>Serving the cursor one document after the other\<close>








section \<open>The claims\<close>

text \<open>
  C1. In every state the process can be in, the goroutines that hold a token of \<open>sem\<close>
  are at most 10. The tokens in the buffer of \<open>sem\<close> are those of the goroutines between
  their start and their deferred receive, and the one \<open>main\<close> has sent for the goroutine it
  is about to start: the send comes before the \<open>go\<close> statement, the receive is deferred
  to the end of the goroutine.
\<close>

theorem executing_at_most_pool:
  assumes "reachable env (init ds e fs0) s"
  shows "executing s \<le> 10 \<and> sem s = executing s + pending_token (main_pc s)"
proof -
  note i = inv_reachable [OF assms]
  from inv_sem [OF i] inv_cap [OF i] show ?thesis by simp
qed

theorem executing_at_most_pool_witness:
  "reachable world (init (replicate 11 (Inr pod_a)) None Map.empty) pool_full \<and>
   executing pool_full = 10 \<and> sem pool_full = 10 \<and> step world Main pool_full = None"
proof -
  have r: "reachable world (init (replicate 11 (Inr pod_a)) None Map.empty) pool_full"
    using run_pool_full by (rule run_from_init)
  have "main_pc pool_full = M_Acquire pod_a" and "sem pool_full = 10"
    by (simp_all add: pool_full_def)
  then show ?thesis
    using r executing_at_most_pool [OF r] by (simp add: sem_cap_def)
qed

text \<open>
  C2. \<open>wg.Wait\<close> returns only when every goroutine started has run its \<open>wg.Done\<close>: once
  \<open>main\<close> is past line 101, all goroutines have ended, the cursor has no document left and
  every decoded record has had its goroutine. The counter of the wait group counts the
  goroutines that have not run \<open>wg.Done\<close> and the one \<open>main\<close> has registered (line 66) and
  not started yet, so each goroutine is registered before \<open>main\<close> goes on to the next
  record.
\<close>

theorem wait_returns_after_all_tasks:
  assumes "reachable env (init ds e fs0) s"
  shows "wg s = length (filter outstanding (tasks s)) + pending_reg (main_pc s) \<and>
         (past_wait (main_pc s) \<longrightarrow>
            (\<forall>t \<in> set (tasks s). tpc t = T_Exit) \<and> cur_docs s = [] \<and>
            map podcast (tasks s) = rights ds)"
proof -
  note i = inv_reachable [OF assms]
  have "(\<forall>t \<in> set (tasks s). tpc t = T_Exit) \<and> cur_docs s = [] \<and>
      map podcast (tasks s) = rights ds" if pw: "past_wait (main_pc s)"
  proof -
    from pw have "past_loop (main_pc s)" by (rule past_wait_loop)
    with i have docs: "cur_docs s = []" by (rule inv_docs)
    from pw have "current (main_pc s) = []" by (cases "main_pc s") auto
    with records_reachable [OF assms] docs have "map podcast (tasks s) = rights ds" by simp
    with past_wait_all_exited [OF i pw] docs show ?thesis by simp
  qed
  with inv_wg [OF i] show ?thesis by blast
qed

theorem wait_returns_after_all_tasks_witness:
  "reachable world (init [Inr pod_a] None Map.empty)
     (waited pod_a [''img/alpha.jpg'' \<mapsto> ''JFIF-PNG-a''] []) \<and>
   main_pc (waited pod_a [''img/alpha.jpg'' \<mapsto> ''JFIF-PNG-a''] []) = M_Println \<and>
   map tpc (tasks (waited pod_a [''img/alpha.jpg'' \<mapsto> ''JFIF-PNG-a''] [])) = [T_Exit] \<and>
   map podcast (tasks (waited pod_a [''img/alpha.jpg'' \<mapsto> ''JFIF-PNG-a''] [])) =
     rights [Inr pod_a]"
proof -
  let ?s = "waited pod_a [''img/alpha.jpg'' \<mapsto> ''JFIF-PNG-a''] []"
  have r: "reachable world (init [Inr pod_a] None Map.empty) ?s"
    using run_waited by (rule run_from_init)
  have "past_wait (main_pc ?s)" by (simp add: waited_def)
  with wait_returns_after_all_tasks [OF r] r show ?thesis by (simp add: waited_def)
qed

text \<open>
  C3, as stated, fails. One record has been dispatched and its goroutine has not yet
  downloaded anything when the cursor reports an error: \<open>log.Fatalf\<close> (line 98) ends the
  process with status 1 before \<open>wg.Wait\<close> is reached, the goroutine still holds its token
  and is still counted by the wait group, it takes no further step and no file has been
  written.
\<close>

theorem cursor_error_abandons_tasks_counterexample:
  "run world (dispatch_one @ [Main, Main])
     (init [Inr pod_a] (Some ''connection reset'') Map.empty) = Some halted \<and>
   exited halted = Some 1 \<and> map tpc (tasks halted) = [T_Download] \<and>
   executing halted = 1 \<and> wg halted = 1 \<and> files halted = Map.empty \<and>
   step world (Task 0) halted = None \<and> step world Main halted = None"
  by (simp add: world_simps halted_def executing_def holds_token_def)

text \<open>
  C3, amended. When \<open>cur.Err\<close> reports an error after the loop, \<open>main\<close> logs
  \<open>Cursor error: ...\<close> and the process ends with status 1 at once: \<open>main\<close> does not go
  on to \<open>wg.Wait\<close>, and neither \<open>main\<close> nor any goroutine takes another step, whatever
  the goroutines were doing.
\<close>

theorem cursor_error_ends_process:
  assumes "exited s = None" and "main_pc s = M_CurErr" and "cur_err s = Some er"
  shows "step env Main s = Some (s\<lparr>log := log s @ [''Cursor error: '' @ er], exited := Some 1\<rparr>) \<and>
         (\<forall>a. step env a (s\<lparr>log := log s @ [''Cursor error: '' @ er], exited := Some 1\<rparr>) = None)"
proof -
  have "step env a (s\<lparr>log := log s @ [''Cursor error: '' @ er], exited := Some 1\<rparr>) = None" for a
    by (cases a) simp_all
  with assms show ?thesis by simp
qed

theorem cursor_error_ends_process_witness:
  "reachable world (init [Inr pod_a] (Some ''connection reset'') Map.empty) at_cursor_error \<and>
   exited at_cursor_error = None \<and> main_pc at_cursor_error = M_CurErr \<and>
   cur_err at_cursor_error = Some ''connection reset'' \<and>
   step world Main at_cursor_error = Some halted \<and>
   step world (Task 0) halted = None \<and> step world Main halted = None"
proof -
  have h: "exited at_cursor_error = None" "main_pc at_cursor_error = M_CurErr"
    "cur_err at_cursor_error = Some ''connection reset''"
    by (simp_all add: at_cursor_error_def)
  have eq: "at_cursor_error\<lparr>log := log at_cursor_error @ [''Cursor error: '' @ ''connection reset''],
      exited := Some 1\<rparr> = halted"
    by (simp add: at_cursor_error_def halted_def)
  note t = cursor_error_ends_process [of at_cursor_error "''connection reset''" world, OF h]
  from t have 1: "step world Main at_cursor_error = Some halted"
    unfolding eq by (rule conjunct1)
  from t have "\<forall>a. step world a halted = None"
    unfolding eq by (rule conjunct2)
  then have "step world (Task 0) halted = None" "step world Main halted = None"
    by blast+
  moreover have "reachable world (init [Inr pod_a] (Some ''connection reset'') Map.empty)
      at_cursor_error"
    using run_at_cursor_error by (rule run_from_init)
  ultimately show ?thesis using 1 h by blast
qed








text \<open>
  C7, as stated, fails. \<open>empty.png\<close> decodes to a picture of 0 by 0 pixels, which
  \<open>resize.Resize\<close> returns as it is: the goroutine saves the picture of 0 by 0 pixels, and
  the run ends with it encoded in \<open>img/empty.jpg\<close>. And for the identifier \<open>../x\<close> the
  path that \<open>filepath.Join\<close> yields is \<open>x.jpg\<close>: the run ends with the file there.
\<close>

theorem pixelless_image_not_resized_counterexample:
  "downloadImage world (Image pod_empty) = Inr \<lparr>Dx = 0, Dy = 0, Pix = ''PNG-empty''\<rparr> \<and>
   run world (dispatch_one @ [Task 0, Task 0]) (init [Inr pod_empty] None Map.empty) =
     Some (started pod_empty (T_Save \<lparr>Dx = 0, Dy = 0, Pix = ''PNG-empty''\<rparr>)) \<and>
   run world (dispatch_one @ through 0 @ finish_main) (init [Inr pod_empty] None Map.empty) =
     Some (ended pod_empty [''img/empty.jpg'' \<mapsto> ''JFIF-PNG-empty''] []) \<and>
   run world (dispatch_one @ through 0 @ finish_main) (init [Inr pod_up] None Map.empty) =
     Some (ended pod_up [''x.jpg'' \<mapsto> ''JFIF-PNG-a''] [])"
  by (simp add: world_simps started_def ended_def)

text \<open>
  C7, amended. A goroutine whose download has yielded the image \<open>img\<close> calls
  \<open>resize.Resize(800, 800, img, resize.Lanczos3)\<close>. When \<open>img\<close> has pixels (a positive
  width and height) the result is exactly 800 by 800 pixels, whatever the proportions of
  \<open>img\<close>: \<open>img\<close> itself when it has these dimensions already, and otherwise the picture
  resampled with the Lanczos filter; an image without pixels is passed on as it is. The
  goroutine encodes the result as JPEG at quality 75 and, when the file can be created
  and the encoder reports no error, leaves exactly the encoded bytes in the file at
  \<open>filepath.Join("img", identifier + ".jpg")\<close>, whatever the file held before; nothing is
  logged and the goroutine goes on to release its token. That path is
  \<open>img/<identifier>.jpg\<close> letter for letter when no element of it is empty, \<open>.\<close> or
  \<open>..\<close>, in particular when the identifier has no separator.
\<close>

theorem task_resizes_encodes_writes:
  assumes "exited s = None" and "i < length (tasks s)" and "tpc (tasks s ! i) = T_Download"
    and "podcast (tasks s ! i) = p"
    and "downloadImage env (Image p) = Inr img"
    and "r = resize_Resize env 800 800 img Lanczos3"
    and "path = filepath_Join [''img'', PodlistUrl p @ ''.jpg'']"
    and "os_Create_fails env path = None"
    and "jpeg_Encode env r 75 = (bs, None)"
  shows "run env [Task i, Task i, Task i] s =
           Some (set_tpc i T_Release (s\<lparr>files := (files s)(path \<mapsto> bs)\<rparr>)) \<and>
         (0 < Dx img \<and> 0 < Dy img \<longrightarrow>
            Dx r = 800 \<and> Dy r = 800 \<and>
            (r = img \<or>
             r = \<lparr>Dx = 800, Dy = 800, Pix = resample env 800 800 img Lanczos3\<rparr>)) \<and>
         (Dx img \<le> 0 \<or> Dy img \<le> 0 \<longrightarrow> r = img) \<and>
         (plain_elems (PodlistUrl p @ ''.jpg'') \<longrightarrow> path = ''img/'' @ PodlistUrl p @ ''.jpg'') \<and>
         (CHR ''/'' \<notin> set (PodlistUrl p) \<longrightarrow> path = ''img/'' @ PodlistUrl p @ ''.jpg'')"
proof -
  let ?s1 = "set_tpc i (T_Resize img) s"
  let ?s2 = "set_tpc i (T_Save r) s"
  have 1: "step env (Task i) s = Some ?s1" using assms(1-5) by simp
  have 2: "step env (Task i) ?s1 = Some ?s2"
    using assms(1,2) by (simp add: set_tpc_nth set_tpc_twice resizeImage_def assms(6))
  have sv: "saveImage env (files s) r path = ((files s)(path \<mapsto> bs), None)"
    using assms(8,9) by (simp add: saveImage_def os_Create_def file_Write_def)
  have 3: "step env (Task i) ?s2 =
      Some (set_tpc i T_Release (?s2\<lparr>files := (files s)(path \<mapsto> bs)\<rparr>))"
    using assms(1,2,4) sv assms(7) by (simp add: set_tpc_nth del: filepath_Join.simps)
  have 4: "set_tpc i T_Release (?s2\<lparr>files := (files s)(path \<mapsto> bs)\<rparr>) =
      set_tpc i T_Release (s\<lparr>files := (files s)(path \<mapsto> bs)\<rparr>)"
    using assms(2) by (simp add: set_tpc_def)
  have rn: "run env [Task i, Task i, Task i] s =
      Some (set_tpc i T_Release (s\<lparr>files := (files s)(path \<mapsto> bs)\<rparr>))"
    using 1 2 3 4 by (simp del: step.simps)
  have px: "Dx r = 800 \<and> Dy r = 800 \<and>
      (r = img \<or> r = \<lparr>Dx = 800, Dy = 800, Pix = resample env 800 800 img Lanczos3\<rparr>)"
    if "0 < Dx img \<and> 0 < Dy img"
    using that by (simp add: assms(6) resize_Resize_def)
  have np: "r = img" if "Dx img \<le> 0 \<or> Dy img \<le> 0"
    using that by (auto simp: assms(6) resize_Resize_def)
  have pl: "path = ''img/'' @ PodlistUrl p @ ''.jpg''" if "plain_elems (PodlistUrl p @ ''.jpg'')"
    unfolding assms(7) using that by (rule Join_img_plain)
  have ns: "path = ''img/'' @ PodlistUrl p @ ''.jpg''" if "CHR ''/'' \<notin> set (PodlistUrl p)"
    using pl plain_elems_jpg [OF that] by simp
  from rn px np pl ns show ?thesis by blast
qed

theorem task_resizes_encodes_writes_witness:
  "exited (started pod_a T_Download) = None \<and>
   downloadImage world (Image pod_a) = Inr \<lparr>Dx = 1400, Dy = 1400, Pix = ''PNG-a''\<rparr> \<and>
   resize_Resize world 800 800 \<lparr>Dx = 1400, Dy = 1400, Pix = ''PNG-a''\<rparr> Lanczos3 =
     \<lparr>Dx = 800, Dy = 800, Pix = ''PNG-a''\<rparr> \<and>
   filepath_Join [''img'', PodlistUrl pod_a @ ''.jpg''] = ''img/alpha.jpg'' \<and>
   plain_elems (PodlistUrl pod_a @ ''.jpg'') \<and>
   os_Create_fails world ''img/alpha.jpg'' = None \<and>
   jpeg_Encode world \<lparr>Dx = 800, Dy = 800, Pix = ''PNG-a''\<rparr> 75 = (''JFIF-PNG-a'', None) \<and>
   run world [Task 0, Task 0, Task 0] (started pod_a T_Download) =
     Some ((started pod_a T_Release)\<lparr>files := [''img/alpha.jpg'' \<mapsto> ''JFIF-PNG-a'']\<rparr>)"
proof -
  let ?s = "started pod_a T_Download"
  let ?img = "\<lparr>Dx = 1400, Dy = 1400, Pix = ''PNG-a''\<rparr>"
  let ?r = "\<lparr>Dx = 800, Dy = 800, Pix = ''PNG-a''\<rparr>"
  have h: "exited ?s = None" "0 < length (tasks ?s)" "tpc (tasks ?s ! 0) = T_Download"
    "podcast (tasks ?s ! 0) = pod_a"
    "downloadImage world (Image pod_a) = Inr ?img"
    by (simp_all add: started_def world_simps)
  have rs: "?r = resize_Resize world 800 800 ?img Lanczos3"
    by (simp add: world_def resize_Resize_def)
  have jn: "''img/alpha.jpg'' = filepath_Join [''img'', PodlistUrl pod_a @ ''.jpg'']"
    by (simp add: pod_a_def Clean_def)
  have pl: "plain_elems (PodlistUrl pod_a @ ''.jpg'')"
    by (simp add: pod_a_def plain_elems_def)
  have c: "os_Create_fails world ''img/alpha.jpg'' = None"
    by (simp add: world_def)
  have en: "jpeg_Encode world ?r 75 = (''JFIF-PNG-a'', None)"
    by (simp add: world_def)
  note t = task_resizes_encodes_writes [OF h rs jn c en]
  from t have 1: "run world [Task 0, Task 0, Task 0] ?s =
      Some (set_tpc 0 T_Release (?s\<lparr>files := (files ?s)(''img/alpha.jpg'' \<mapsto> ''JFIF-PNG-a'')\<rparr>))"
    by (rule conjunct1)
  have 2: "set_tpc 0 T_Release (?s\<lparr>files := (files ?s)(''img/alpha.jpg'' \<mapsto> ''JFIF-PNG-a'')\<rparr>) =
    (started pod_a T_Release)\<lparr>files := [''img/alpha.jpg'' \<mapsto> ''JFIF-PNG-a'']\<rparr>"
    by (simp add: started_def set_tpc_def)
  from 1 have 3: "run world [Task 0, Task 0, Task 0] ?s =
      Some ((started pod_a T_Release)\<lparr>files := [''img/alpha.jpg'' \<mapsto> ''JFIF-PNG-a'']\<rparr>)"
    unfolding 2 .
  from h(1,5) rs [symmetric] jn [symmetric] pl c en 3 show ?thesis by blast
qed

text \<open>
  C8, as stated, fails. In one run the only goroutine writes its file, in the other its
  download fails. Both runs end in states that agree on everything but the files and the
  log: the same line on standard output, the same status 0, the same counter, the same
  buffer, the same goroutine states. The process keeps no count of the goroutines that
  succeeded or failed.
\<close>

theorem no_counts_kept_counterexample:
  "run world (dispatch_one @ through 0 @ finish_main) (init [Inr pod_a] None Map.empty) =
     Some (ended pod_a [''img/alpha.jpg'' \<mapsto> ''JFIF-PNG-a''] []) \<and>
   run world (dispatch_one @ give_up 0 @ finish_main) (init [Inr pod_down] None Map.empty) =
     Some (ended pod_down Map.empty
       [''Failed to download image: http://down.test/x.png, error: failed to get image: no such host'']) \<and>
   ended pod_down Map.empty
       [''Failed to download image: http://down.test/x.png, error: failed to get image: no such host''] =
     (ended pod_a [''img/alpha.jpg'' \<mapsto> ''JFIF-PNG-a''] [])
       \<lparr>tasks := [\<lparr>podcast = pod_down, tpc = T_Exit\<rparr>], files := Map.empty,
        log := [''Failed to download image: http://down.test/x.png, error: failed to get image: no such host'']\<rparr>"
  by (simp add: world_simps ended_def)

text \<open>
  C8, amended. After \<open>wg.Wait\<close> has returned, \<open>main\<close> prints the line
  \<open>All images processed.\<close> and the process ends with status 0, whatever the goroutines
  have logged. Status 0 is reached with exactly this line on standard output and all
  goroutines ended; before the line is printed standard output is empty. No counts of
  succeeded or failed goroutines are kept or reported.
\<close>

theorem summary_then_exit_0:
  assumes "reachable env (init ds e fs0) s"
  shows "(exited s = None \<and> main_pc s = M_Println \<longrightarrow>
            run env [Main, Main] s =
              Some (s\<lparr>stdout := [''All images processed.''], main_pc := M_Return,
                     exited := Some 0\<rparr>)) \<and>
         (exited s = Some 0 \<longrightarrow>
            stdout s = [''All images processed.''] \<and> (\<forall>t \<in> set (tasks s). tpc t = T_Exit)) \<and>
         (main_pc s \<noteq> M_Return \<longrightarrow> stdout s = [])"
proof -
  note i = inv_reachable [OF assms]
  note so = inv_stdout [OF i]
  have a: "run env [Main, Main] s =
      Some (s\<lparr>stdout := [''All images processed.''], main_pc := M_Return, exited := Some 0\<rparr>)"
    if "exited s = None" "main_pc s = M_Println"
    using that so by simp
  have b: "stdout s = [''All images processed.''] \<and> (\<forall>t \<in> set (tasks s). tpc t = T_Exit)"
    if "exited s = Some 0"
  proof -
    from i that have pc: "main_pc s = M_Return" by (rule inv_exit_0)
    then have "past_wait (main_pc s)" by simp
    with i have "\<forall>t \<in> set (tasks s). tpc t = T_Exit" by (rule past_wait_all_exited)
    with so pc show ?thesis by simp
  qed
  have c: "stdout s = []" if "main_pc s \<noteq> M_Return"
    using that so by simp
  from a b c show ?thesis by blast
qed

theorem summary_then_exit_0_witness:
  "reachable world (init [Inr pod_a] None Map.empty)
     (waited pod_a [''img/alpha.jpg'' \<mapsto> ''JFIF-PNG-a''] []) \<and>
   exited (waited pod_a [''img/alpha.jpg'' \<mapsto> ''JFIF-PNG-a''] []) = None \<and>
   main_pc (waited pod_a [''img/alpha.jpg'' \<mapsto> ''JFIF-PNG-a''] []) = M_Println \<and>
   run world [Main, Main] (waited pod_a [''img/alpha.jpg'' \<mapsto> ''JFIF-PNG-a''] []) =
     Some (ended pod_a [''img/alpha.jpg'' \<mapsto> ''JFIF-PNG-a''] [])"
proof -
  let ?s = "waited pod_a [''img/alpha.jpg'' \<mapsto> ''JFIF-PNG-a''] []"
  have r: "reachable world (init [Inr pod_a] None Map.empty) ?s"
    using run_waited by (rule run_from_init)
  have h: "exited ?s = None \<and> main_pc ?s = M_Println" by (simp add: waited_def)
  have eq: "?s\<lparr>stdout := [''All images processed.''], main_pc := M_Return, exited := Some 0\<rparr> =
    ended pod_a [''img/alpha.jpg'' \<mapsto> ''JFIF-PNG-a''] []"
    by (simp add: waited_def ended_def)
  from summary_then_exit_0 [OF r] h
  have "run world [Main, Main] ?s =
    Some (?s\<lparr>stdout := [''All images processed.''], main_pc := M_Return, exited := Some 0\<rparr>)"
    by blast
  with eq r h show ?thesis by (simp del: run.simps)
qed

text \<open>
  C9. \<open>resizeImage\<close> returns the result of \<open>resize.Resize\<close> with a nil error for every
  image and all dimensions. So a goroutine at its Resize step always goes on to save the
  resized image, and no state the process can be in has a
  \<open>Failed to resize image: ...\<close> line in its log.
\<close>

theorem resize_never_fails:
  "resizeImage env img w h = Inr (resize_Resize env w h img Lanczos3) \<and>
   (exited s = None \<and> i < length (tasks s) \<and> tpc (tasks s ! i) = T_Resize img \<longrightarrow>
      step env (Task i) s = Some (set_tpc i (T_Save (resize_Resize env 800 800 img Lanczos3)) s)) \<and>
   (reachable env (init ds e fs0) s \<longrightarrow> (\<forall>l \<in> set (log s). \<not> resize_failure l))"
proof -
  have a: "resizeImage env img w h = Inr (resize_Resize env w h img Lanczos3)"
    by (simp add: resizeImage_def)
  have b: "step env (Task i) s = Some (set_tpc i (T_Save (resize_Resize env 800 800 img Lanczos3)) s)"
    if "exited s = None" "i < length (tasks s)" "tpc (tasks s ! i) = T_Resize img"
    using that by (simp add: resizeImage_def)
  have c: "\<forall>l \<in> set (log s). \<not> resize_failure l" if "reachable env (init ds e fs0) s"
    using that by (rule log_reachable)
  from a b c show ?thesis by blast
qed

theorem resize_never_fails_witness:
  "reachable world (init [Inr pod_a] None Map.empty)
     (started pod_a (T_Resize \<lparr>Dx = 1400, Dy = 1400, Pix = ''PNG-a''\<rparr>)) \<and>
   resizeImage world \<lparr>Dx = 1400, Dy = 1400, Pix = ''PNG-a''\<rparr> 800 800 = Inr \<lparr>Dx = 800, Dy = 800, Pix = ''PNG-a''\<rparr> \<and>
   step world (Task 0) (started pod_a (T_Resize \<lparr>Dx = 1400, Dy = 1400, Pix = ''PNG-a''\<rparr>)) =
     Some (started pod_a (T_Save \<lparr>Dx = 800, Dy = 800, Pix = ''PNG-a''\<rparr>)) \<and>
   log (started pod_a (T_Resize \<lparr>Dx = 1400, Dy = 1400, Pix = ''PNG-a''\<rparr>)) = []"
proof -
  let ?s = "started pod_a (T_Resize \<lparr>Dx = 1400, Dy = 1400, Pix = ''PNG-a''\<rparr>)"
  have r: "reachable world (init [Inr pod_a] None Map.empty) ?s"
    using run_resize by (rule run_from_init)
  have h: "exited ?s = None \<and> 0 < length (tasks ?s) \<and>
      tpc (tasks ?s ! 0) = T_Resize \<lparr>Dx = 1400, Dy = 1400, Pix = ''PNG-a''\<rparr>"
    by (simp add: started_def)
  have rs: "resize_Resize world 800 800 \<lparr>Dx = 1400, Dy = 1400, Pix = ''PNG-a''\<rparr> Lanczos3 =
      \<lparr>Dx = 800, Dy = 800, Pix = ''PNG-a''\<rparr>"
    by (simp add: world_def resize_Resize_def)
  note t = resize_never_fails [of world "\<lparr>Dx = 1400, Dy = 1400, Pix = ''PNG-a''\<rparr>" 800 800 ?s 0]
  from t have 1: "resizeImage world \<lparr>Dx = 1400, Dy = 1400, Pix = ''PNG-a''\<rparr> 800 800 = Inr \<lparr>Dx = 800, Dy = 800, Pix = ''PNG-a''\<rparr>"
    unfolding rs by (rule conjunct1)
  from t h have 2: "step world (Task 0) ?s = Some (set_tpc 0 (T_Save \<lparr>Dx = 800, Dy = 800, Pix = ''PNG-a''\<rparr>) ?s)"
    unfolding rs by blast
  have 3: "set_tpc 0 (T_Save \<lparr>Dx = 800, Dy = 800, Pix = ''PNG-a''\<rparr>) ?s = started pod_a (T_Save \<lparr>Dx = 800, Dy = 800, Pix = ''PNG-a''\<rparr>)"
    by (simp add: started_def set_tpc_def)
  have 4: "log ?s = []" by (simp add: started_def)
  from r 1 2 3 4 show ?thesis by (simp del: step.simps)
qed

text \<open>
  C10. \<open>saveImage\<close> creates, or truncates, the file before it encodes. When the file can
  be created and \<open>jpeg.Encode\<close> returns an error after having written the bytes \<open>bs\<close>
  (none, or a part of the picture), \<open>saveImage\<close> returns that error and the file is there,
  holding \<open>bs\<close> and nothing of what it held before. The goroutine then logs
  \<open>Failed to save image: ...\<close> and leaves the file as it is.
\<close>

theorem failed_encode_leaves_file:
  assumes "os_Create_fails env path = None" and "jpeg_Encode env img 75 = (bs, Some er)"
  shows "saveImage env fs img path = (fs(path \<mapsto> bs), Some er) \<and>
         (exited s = None \<and> i < length (tasks s) \<and> tpc (tasks s ! i) = T_Save img \<and>
          filepath_Join [''img'', PodlistUrl (podcast (tasks s ! i)) @ ''.jpg''] = path \<longrightarrow>
            step env (Task i) s =
              Some (set_tpc i T_Release
                (s\<lparr>files := (files s)(path \<mapsto> bs),
                   log := log s @ [''Failed to save image: '' @ er]\<rparr>)))"
proof -
  have sv: "saveImage env fs' img path = (fs'(path \<mapsto> bs), Some er)" for fs'
    using assms by (simp add: saveImage_def os_Create_def file_Write_def)
  have "step env (Task i) s =
      Some (set_tpc i T_Release
        (s\<lparr>files := (files s)(path \<mapsto> bs), log := log s @ [''Failed to save image: '' @ er]\<rparr>))"
    if "exited s = None" "i < length (tasks s)" "tpc (tasks s ! i) = T_Save img"
      "filepath_Join [''img'', PodlistUrl (podcast (tasks s ! i)) @ ''.jpg''] = path"
    using that sv [of "files s"] by (simp del: filepath_Join.simps)
  with sv [of fs] show ?thesis by blast
qed

theorem failed_encode_leaves_file_witness:
  "reachable world (init [Inr pod_big] None Map.empty)
     (started pod_big (T_Save \<lparr>Dx = 800, Dy = 800, Pix = ''PNG-big''\<rparr>)) \<and>
   os_Create_fails world ''img/big.jpg'' = None \<and>
   jpeg_Encode world \<lparr>Dx = 800, Dy = 800, Pix = ''PNG-big''\<rparr> 75 = (''JF'', Some ''no space left on device'') \<and>
   saveImage world [''img/big.jpg'' \<mapsto> ''old picture''] \<lparr>Dx = 800, Dy = 800, Pix = ''PNG-big''\<rparr> ''img/big.jpg'' =
     ([''img/big.jpg'' \<mapsto> ''JF''], Some ''no space left on device'') \<and>
   step world (Task 0) (started pod_big (T_Save \<lparr>Dx = 800, Dy = 800, Pix = ''PNG-big''\<rparr>)) =
     Some ((started pod_big T_Release)
       \<lparr>files := [''img/big.jpg'' \<mapsto> ''JF''],
        log := [''Failed to save image: no space left on device'']\<rparr>)"
proof -
  let ?s = "started pod_big (T_Save \<lparr>Dx = 800, Dy = 800, Pix = ''PNG-big''\<rparr>)"
  have r: "reachable world (init [Inr pod_big] None Map.empty) ?s"
    using run_save by (rule run_from_init)
  have c: "os_Create_fails world ''img/big.jpg'' = None" by (simp add: world_def)
  have en: "jpeg_Encode world \<lparr>Dx = 800, Dy = 800, Pix = ''PNG-big''\<rparr> 75 = (''JF'', Some ''no space left on device'')"
    by (simp add: world_def)
  have h: "exited ?s = None \<and> 0 < length (tasks ?s) \<and>
      tpc (tasks ?s ! 0) = T_Save \<lparr>Dx = 800, Dy = 800, Pix = ''PNG-big''\<rparr> \<and>
      filepath_Join [''img'', PodlistUrl (podcast (tasks ?s ! 0)) @ ''.jpg''] = ''img/big.jpg''"
    by (simp add: started_def pod_big_def Clean_def)
  note t = failed_encode_leaves_file [OF c en, of "[''img/big.jpg'' \<mapsto> ''old picture'']" ?s 0]
  from t have 1: "saveImage world [''img/big.jpg'' \<mapsto> ''old picture''] \<lparr>Dx = 800, Dy = 800, Pix = ''PNG-big''\<rparr>
      ''img/big.jpg'' = ([''img/big.jpg'' \<mapsto> ''JF''], Some ''no space left on device'')"
    by simp
  from t h have 2: "step world (Task 0) ?s =
      Some (set_tpc 0 T_Release
        (?s\<lparr>files := (files ?s)(''img/big.jpg'' \<mapsto> ''JF''),
            log := log ?s @ [''Failed to save image: '' @ ''no space left on device'']\<rparr>))"
    by blast
  have 3: "set_tpc 0 T_Release
        (?s\<lparr>files := (files ?s)(''img/big.jpg'' \<mapsto> ''JF''),
            log := log ?s @ [''Failed to save image: '' @ ''no space left on device'']\<rparr>) =
     (started pod_big T_Release)
       \<lparr>files := [''img/big.jpg'' \<mapsto> ''JF''],
        log := [''Failed to save image: no space left on device'']\<rparr>"
    by (simp add: started_def set_tpc_def)
  from r c en 1 2 3 show ?thesis by (simp del: step.simps)
qed

end
